theory Spec2Isabelle
  imports Main "HOL-Library.Sublist"
begin

section \<open>nerdctl container prune: a shallow embedding of \<open>containerPruneAction\<close>\<close>

text \<open>
  The embedded source is \<^verbatim>\<open>cmd/nerdctl/container_prune.go\<close>. The command talks to
  collaborators that live outside that file: the client factory \<^verbatim>\<open>newClient\<close>, the flag
  set of the cobra command, the command's input and output streams, the containerd client,
  \<^verbatim>\<open>removeContainer\<close>, the error type \<^verbatim>\<open>statusError\<close> and the logrus logger. Their answers
  are the fields of an environment record; what the command does to them is recorded, in
  program order, in a trace of events carried by an explicit state.
\<close>

subsection \<open>Data\<close>

text \<open>A container handle; the command only ever asks it for its identifier.\<close>

datatype container = Container (ID: string)

text \<open>
  Observable actions. \<open>'e\<close> is the type of Go error values. A call to the runtime is
  recorded together with what it returned (\<open>None\<close> is Go's \<^verbatim>\<open>nil\<close> error).
\<close>

datatype 'e event =
    NewClient
  | Out string
  | Scan
  | ListCall "'e + container list"
  | RemoveCall container string bool bool "'e option"
  | Warn 'e string
  | Cancel

text \<open>
  The collaborators. \<open>'w\<close> is the state of the container runtime, which a removal changes.
  The fifth and sixth argument of \<^verbatim>\<open>removeContainer\<close> are two booleans; its declaration is
  not part of the embedded file, the external interface names them force and best effort.
\<close>

record ('w, 'e) env =
  newClient :: "'e option"
  GetBool_force :: "'e + bool"
  GetString_namespace :: "'e + string"
  stdin :: string
  Containers :: "'w \<Rightarrow> 'e + container list"
  removeContainer :: "'w \<Rightarrow> container \<Rightarrow> string \<Rightarrow> bool \<Rightarrow> bool \<Rightarrow> 'e option \<times> 'w"
  is_statusError :: "'e \<Rightarrow> bool"

text \<open>
  The state threaded through the command: the runtime, the trace so far, and the local
  variable \<^verbatim>\<open>deleted\<close> (the DeletedSet).
\<close>

record ('w, 'e) state =
  world :: 'w
  trace :: "'e event list"
  deleted :: "string list"

definition emit :: "'e event \<Rightarrow> ('w, 'e) state \<Rightarrow> ('w, 'e) state" where
  "emit ev s = s\<lparr>trace := trace s @ [ev]\<rparr>"

subsection \<open>Library functions used by the confirmation gate\<close>

text \<open>
  \<^verbatim>\<open>fmt.Fscanf(r, "%s", &confirm)\<close> on a stream of bytes: leading blanks are discarded, a
  newline met while doing so is a scan error, end of input is a scan error, and otherwise
  the verb takes the bytes up to the next blank or newline. On a scan error \<^verbatim>\<open>confirm\<close>
  stays the empty string it was declared as; the command ignores what \<^verbatim>\<open>Fscanf\<close> returns.
  The model is for ASCII input: Go also counts the Unicode spaces from U+0085 on as
  blanks, and this model of bytes takes them as part of the token.
\<close>

definition isSpace :: "char \<Rightarrow> bool" where
  "isSpace c \<longleftrightarrow> c \<in> {CHR 0x09, CHR 0x0A, CHR 0x0B, CHR 0x0C, CHR 0x0D, CHR 0x20}"

fun SkipSpace :: "string \<Rightarrow> string option" where
  "SkipSpace [] = Some []"
| "SkipSpace (r # rs) =
     (if r = CHR 0x0A then None
      else if isSpace r then SkipSpace rs
      else Some (r # rs))"

definition Fscanf_s :: "string \<Rightarrow> string" where
  "Fscanf_s input =
     (case SkipSpace input of
        None \<Rightarrow> []
      | Some rest \<Rightarrow> takeWhile (\<lambda>r. \<not> isSpace r) rest)"

text \<open>
  \<^verbatim>\<open>strings.ToLower\<close> on bytes: the letters A to Z move to a to z. No rune outside ASCII has
  the lower case y, so the comparison with \<^verbatim>\<open>"y"\<close> below is decided by this part.
\<close>

definition toLower_char :: "char \<Rightarrow> char" where
  "toLower_char c =
     (let n = (of_char c :: nat)
      in if 65 \<le> n \<and> n \<le> 90 then char_of (n + 32) else c)"

definition ToLower :: "string \<Rightarrow> string" where
  "ToLower s = map toLower_char s"

subsection \<open>The command\<close>

definition prompt :: string where
  "prompt = ''WARNING! This will remove all stopped containers.\<newline>Are you sure you want to continue? [y/N] ''"

text \<open>Lines 53 to 61: the result says whether the command goes on.\<close>

definition confirm_gate :: "('w, 'e) env \<Rightarrow> bool \<Rightarrow> ('w, 'e) state \<Rightarrow> bool \<times> ('w, 'e) state" where
  "confirm_gate env force s =
     (if \<not> force then
        (let s1 = emit (Out prompt) s;
             s2 = emit Scan s1;
             confirm = Fscanf_s (stdin env)
         in if ToLower confirm \<noteq> ''y'' then (False, s2) else (True, s2))
      else (True, s))"

definition warn_msg :: "container \<Rightarrow> string" where
  "warn_msg c = ''failed to remove container '' @ ID c"

text \<open>Lines 75 to 83: the body of the removal loop, for one container.\<close>

definition remove_step :: "('w, 'e) env \<Rightarrow> string \<Rightarrow> ('w, 'e) state \<Rightarrow> container \<Rightarrow> ('w, 'e) state" where
  "remove_step env ns s c =
     (let (err, w') = removeContainer env (world s) c ns False True;
          s1 = emit (RemoveCall c ns False True err) (s\<lparr>world := w'\<rparr>)
      in case err of
           None \<Rightarrow> s1\<lparr>deleted := deleted s1 @ [ID c]\<rparr>
         | Some e \<Rightarrow>
             if is_statusError env e then s1
             else emit (Warn e (warn_msg c)) s1)"

text \<open>Lines 74 to 84: the loop over the enumerated containers.\<close>

fun remove_loop :: "('w, 'e) env \<Rightarrow> string \<Rightarrow> container list \<Rightarrow> ('w, 'e) state \<Rightarrow> ('w, 'e) state" where
  "remove_loop env ns [] s = s"
| "remove_loop env ns (c # cs) s = remove_loop env ns cs (remove_step env ns s c)"

text \<open>Lines 86 to 91: the report. \<^verbatim>\<open>Fprintln\<close> writes its argument and a newline.\<close>

definition Fprintln :: "string \<Rightarrow> ('w, 'e) state \<Rightarrow> ('w, 'e) state" where
  "Fprintln str s = emit (Out (str @ ''\<newline>'')) s"

fun print_ids :: "string list \<Rightarrow> ('w, 'e) state \<Rightarrow> ('w, 'e) state" where
  "print_ids [] s = s"
| "print_ids (i # ids) s = print_ids ids (Fprintln i s)"

definition report :: "('w, 'e) state \<Rightarrow> ('w, 'e) state" where
  "report s =
     (if length (deleted s) > 0
      then print_ids (deleted s) (Fprintln ''Deleted Containers:'' s)
      else s)"

text \<open>Lines 53 to 93: everything after the force flag has been read.\<close>

definition prune_body :: "('w, 'e) env \<Rightarrow> bool \<Rightarrow> ('w, 'e) state \<Rightarrow> 'e option \<times> ('w, 'e) state" where
  "prune_body env force s =
     (let (go, s1) = confirm_gate env force s
      in if \<not> go then (None, s1)
         else
           (case GetString_namespace env of
              Inl e \<Rightarrow> (Some e, s1)
            | Inr ns \<Rightarrow>
                (let listed = Containers env (world s1);
                     s2 = emit (ListCall listed) s1
                 in case listed of
                      Inl e \<Rightarrow> (Some e, s2)
                    | Inr containers \<Rightarrow> (None, report (remove_loop env ns containers s2)))))"

definition init :: "'w \<Rightarrow> ('w, 'e) state" where
  "init w = \<lparr>world = w, trace = [], deleted = []\<rparr>"

text \<open>
  Lines 41 to 94. The result is the returned error (\<open>None\<close> is \<^verbatim>\<open>nil\<close>, exit code 0) and
  the final state. The deferred \<^verbatim>\<open>cancel()\<close> runs on every return after line 46.
\<close>

definition containerPruneAction :: "('w, 'e) env \<Rightarrow> 'w \<Rightarrow> 'e option \<times> ('w, 'e) state" where
  "containerPruneAction env w =
     (let s0 = emit NewClient (init w)
      in case newClient env of
           Some e \<Rightarrow> (Some e, s0)
         | None \<Rightarrow>
             (let (r, s) =
                (case GetBool_force env of
                   Inl e \<Rightarrow> (Some e, s0)
                 | Inr force \<Rightarrow> prune_body env force s0)
              in (r, emit Cancel s)))"

subsection \<open>Reading a trace\<close>

text \<open>The removal calls of a trace, with what each returned, in order.\<close>

fun removals :: "'e event list \<Rightarrow> (container \<times> 'e option) list" where
  "removals [] = []"
| "removals (RemoveCall c ns f b r # t) = (c, r) # removals t"
| "removals (_ # t) = removals t"

text \<open>The calls made on the runtime client: enumeration and removal.\<close>

fun is_client_call :: "'e event \<Rightarrow> bool" where
  "is_client_call (ListCall r) = True"
| "is_client_call (RemoveCall c ns f b r) = True"
| "is_client_call _ = False"

text \<open>The arguments of the removal calls of a trace, in order.\<close>

fun removal_args :: "'e event list \<Rightarrow> (container \<times> string \<times> bool \<times> bool) list" where
  "removal_args [] = []"
| "removal_args (RemoveCall c ns f b r # t) = (c, ns, f, b) # removal_args t"
| "removal_args (_ # t) = removal_args t"

text \<open>The events the removal loop can add: a removal call and a warning.\<close>

fun is_loop_event :: "'e event \<Rightarrow> bool" where
  "is_loop_event (RemoveCall c ns f b r) = True"
| "is_loop_event (Warn e m) = True"
| "is_loop_event _ = False"

text \<open>
  The state in which the loop of line 74 starts, when the force flag was read as \<open>force\<close>, the
  gate let the command through and the enumeration returned \<open>cs\<close>.
\<close>

definition loop_entry :: "('w, 'e) env \<Rightarrow> bool \<Rightarrow> 'w \<Rightarrow> container list \<Rightarrow> ('w, 'e) state" where
  "loop_entry env force w cs =
     emit (ListCall (Inr cs)) (snd (confirm_gate env force (emit NewClient (init w))))"

text \<open>The containers of a trace whose removal call returned success, in order.\<close>

definition succeeded :: "'e event list \<Rightarrow> container list" where
  "succeeded t = map fst (filter (\<lambda>p. snd p = None) (removals t))"

subsection \<open>A small runtime to run the command on\<close>

text \<open>
  Four containers: \<open>aaa\<close> and \<open>ccc\<close> are stopped, \<open>bbb\<close> is running and its removal is
  rejected with a status error, the removal of \<open>ddd\<close> fails for another reason. Errors are
  their messages; the runtime state is the list of identifiers removed so far, and a
  container that is already gone cannot be removed again.
\<close>

definition demo_containers :: "container list" where
  "demo_containers = [Container ''aaa'', Container ''bbb'', Container ''ccc'', Container ''ddd'']"

definition demo_list :: "string list \<Rightarrow> string + container list" where
  "demo_list w = Inr (filter (\<lambda>c. ID c \<notin> set w) demo_containers)"

definition demo_remove :: "string list \<Rightarrow> container \<Rightarrow> string \<Rightarrow> bool \<Rightarrow> bool \<Rightarrow> string option \<times> string list" where
  "demo_remove w c ns force best_effort =
     (if ID c \<in> set w then (Some ''no such container'', w)
      else if ID c = ''bbb'' \<and> \<not> force then (Some ''container is running'', w)
      else if ID c = ''ddd'' then (Some ''input/output error'', w)
      else (None, ID c # w))"

definition demo_is_status :: "string \<Rightarrow> bool" where
  "demo_is_status e \<longleftrightarrow> e = ''container is running''"

definition demo_env :: "bool \<Rightarrow> string \<Rightarrow> (string list, string) env" where
  "demo_env force input =
     \<lparr>newClient = None, GetBool_force = Inr force, GetString_namespace = Inr ''default'',
      stdin = input, Containers = demo_list, removeContainer = demo_remove,
      is_statusError = demo_is_status\<rparr>"

text \<open>An enumeration that fails.\<close>

definition demo_list_broken :: "string list \<Rightarrow> string + container list" where
  "demo_list_broken w = Inl ''connection refused''"

section \<open>Properties\<close>

subsection \<open>The library functions\<close>

lemma toLower_char_y: "toLower_char c = CHR ''y'' \<longleftrightarrow> c = CHR ''y'' \<or> c = CHR ''Y''"
proof -
  define n where "n = (of_char c :: nat)"
  have y: "(of_char (CHR ''y'') :: nat) = 121" and Y: "(of_char (CHR ''Y'') :: nat) = 89"
    by simp_all
  have cy: "c = CHR ''y'' \<longleftrightarrow> n = 121"
    by (metis n_def y of_char_eq_iff)
  have cY: "c = CHR ''Y'' \<longleftrightarrow> n = 89"
    by (metis n_def Y of_char_eq_iff)
  show ?thesis
  proof (cases "65 \<le> n \<and> n \<le> 90")
    case True
    then have "toLower_char c = char_of (n + 32)"
      by (simp add: toLower_char_def n_def)
    moreover have "char_of (n + 32) = CHR ''y'' \<longleftrightarrow> (n + 32) mod 256 = 121"
      by (metis y of_char_of of_char_eq_iff)
    moreover have "(n + 32) mod 256 = n + 32"
      using True by simp
    ultimately show ?thesis
      using True cy cY by auto
  next
    case False
    then have "toLower_char c = c"
      by (auto simp add: toLower_char_def n_def Let_def)
    then show ?thesis
      using False cy cY by auto
  qed
qed

text \<open>Lowering a token gives \<open>y\<close> for the tokens \<open>y\<close> and \<open>Y\<close> and for no other.\<close>

lemma ToLower_y: "ToLower s = ''y'' \<longleftrightarrow> s = ''y'' \<or> s = ''Y''"
proof -
  have "ToLower s = ''y'' \<longleftrightarrow> (\<exists>c. s = [c] \<and> toLower_char c = CHR ''y'')"
    by (cases s) (auto simp add: ToLower_def)
  then show ?thesis
    by (auto simp add: toLower_char_y)
qed

subsection \<open>The state after each part of the command\<close>

lemma trace_emit [simp]: "trace (emit ev s) = trace s @ [ev]"
  and deleted_emit [simp]: "deleted (emit ev s) = deleted s"
  and world_emit [simp]: "world (emit ev s) = world s"
  by (simp_all add: emit_def)

lemma removals_append: "removals (t @ u) = removals t @ removals u"
  by (induction t rule: removals.induct) simp_all


lemma print_ids_trace: "trace (print_ids ids s) = trace s @ map (\<lambda>i. Out (i @ ''\<newline>'')) ids"
  by (induction ids arbitrary: s) (simp_all add: Fprintln_def)

lemma print_ids_deleted: "deleted (print_ids ids s) = deleted s"
  by (induction ids arbitrary: s) (simp_all add: Fprintln_def)

lemma print_ids_world: "world (print_ids ids s) = world s"
  by (induction ids arbitrary: s) (simp_all add: Fprintln_def)

lemma report_trace:
  "trace (report s) = trace s @
     (if deleted s = [] then []
      else Out ''Deleted Containers:\<newline>'' # map (\<lambda>i. Out (i @ ''\<newline>'')) (deleted s))"
  by (simp add: report_def print_ids_trace Fprintln_def)

lemma report_deleted: "deleted (report s) = deleted s"
  by (simp add: report_def print_ids_deleted Fprintln_def)

lemma report_world: "world (report s) = world s"
  by (simp add: report_def print_ids_world Fprintln_def)

lemma remove_loop_append:
  "remove_loop env ns (xs @ ys) s = remove_loop env ns ys (remove_loop env ns xs s)"
  by (induction xs arbitrary: s) simp_all

text \<open>One pass through the loop body, by what the removal returned.\<close>

lemma remove_step_success:
  assumes "removeContainer env (world s) c ns False True = (None, w')"
  shows "remove_step env ns s c =
           s\<lparr>world := w', trace := trace s @ [RemoveCall c ns False True None],
             deleted := deleted s @ [ID c]\<rparr>"
  using assms by (simp add: remove_step_def emit_def)

lemma remove_step_status:
  assumes "removeContainer env (world s) c ns False True = (Some e, w')" and "is_statusError env e"
  shows "remove_step env ns s c =
           s\<lparr>world := w', trace := trace s @ [RemoveCall c ns False True (Some e)]\<rparr>"
  using assms by (simp add: remove_step_def emit_def)

lemma remove_step_other:
  assumes "removeContainer env (world s) c ns False True = (Some e, w')" and "\<not> is_statusError env e"
  shows "remove_step env ns s c =
           s\<lparr>world := w',
             trace := trace s @ [RemoveCall c ns False True (Some e), Warn e (warn_msg c)]\<rparr>"
  using assms by (simp add: remove_step_def emit_def)

lemma remove_step_cases:
  obtains (success) w' where "removeContainer env (world s) c ns False True = (None, w')"
  | (status) e w' where "removeContainer env (world s) c ns False True = (Some e, w')" "is_statusError env e"
  | (other) e w' where "removeContainer env (world s) c ns False True = (Some e, w')" "\<not> is_statusError env e"
  by (cases "removeContainer env (world s) c ns False True") (metis option.exhaust)

lemma remove_step_removals:
  "removals (trace (remove_step env ns s c)) =
     removals (trace s) @ [(c, fst (removeContainer env (world s) c ns False True))]"
  by (cases rule: remove_step_cases [of env s c ns])
     (simp_all add: remove_step_success remove_step_status remove_step_other removals_append)


lemma remove_step_deleted:
  "deleted (remove_step env ns s c) =
     deleted s @ (if fst (removeContainer env (world s) c ns False True) = None then [ID c] else [])"
  by (cases rule: remove_step_cases [of env s c ns])
     (simp_all add: remove_step_success remove_step_status remove_step_other)

lemma remove_step_events:
  "\<exists>t. trace (remove_step env ns s c) = trace s @ t \<and> (\<forall>ev \<in> set t. is_loop_event ev)"
  by (cases rule: remove_step_cases [of env s c ns])
     (simp_all add: remove_step_success remove_step_status remove_step_other)

lemma remove_loop_events:
  "\<exists>t. trace (remove_loop env ns cs s) = trace s @ t \<and> (\<forall>ev \<in> set t. is_loop_event ev)"
proof (induction cs arbitrary: s)
  case Nil
  show ?case by simp
next
  case (Cons c cs)
  obtain t where t: "trace (remove_step env ns s c) = trace s @ t" "\<forall>ev \<in> set t. is_loop_event ev"
    using remove_step_events by blast
  obtain u where u: "trace (remove_loop env ns cs (remove_step env ns s c)) = trace (remove_step env ns s c) @ u"
      "\<forall>ev \<in> set u. is_loop_event ev"
    using Cons.IH by blast
  have "trace (remove_loop env ns (c # cs) s) = trace s @ (t @ u)"
    using t u by simp
  moreover have "\<forall>ev \<in> set (t @ u). is_loop_event ev"
    using t u by auto
  ultimately show ?case by blast
qed


lemma remove_loop_containers:
  "map fst (removals (trace (remove_loop env ns cs s))) = map fst (removals (trace s)) @ cs"
  by (induction cs arbitrary: s) (simp_all add: remove_step_removals)

lemma remove_step_inv:
  assumes "deleted s = map ID (succeeded (trace s))"
  shows "deleted (remove_step env ns s c) = map ID (succeeded (trace (remove_step env ns s c)))"
  using assms by (simp add: remove_step_deleted remove_step_removals succeeded_def)

lemma remove_loop_inv:
  assumes "deleted s = map ID (succeeded (trace s))"
  shows "deleted (remove_loop env ns cs s) = map ID (succeeded (trace (remove_loop env ns cs s)))"
  using assms by (induction cs arbitrary: s) (simp_all add: remove_step_inv)

lemma confirm_gate_forced: "confirm_gate env True s = (True, s)"
  by (simp add: confirm_gate_def)

lemma confirm_gate_asked:
  "confirm_gate env False s =
     (Fscanf_s (stdin env) = ''y'' \<or> Fscanf_s (stdin env) = ''Y'',
      s\<lparr>trace := trace s @ [Out prompt, Scan]\<rparr>)"
  by (simp add: confirm_gate_def emit_def ToLower_y Let_def)

lemma loop_entry_fields:
  "trace (loop_entry env force w cs) =
     NewClient # (if force then [] else [Out prompt, Scan]) @ [ListCall (Inr cs)]"
  "deleted (loop_entry env force w cs) = []"
  "world (loop_entry env force w cs) = w"
  by (cases force; simp add: loop_entry_def confirm_gate_forced confirm_gate_asked init_def)+

text \<open>What the command returns, path by path.\<close>

lemma prune_client_failed:
  assumes "newClient env = Some e"
  shows "containerPruneAction env w = (Some e, \<lparr>world = w, trace = [NewClient], deleted = []\<rparr>)"
  using assms by (simp add: containerPruneAction_def init_def emit_def)

lemma prune_force_failed:
  assumes "newClient env = None" and "GetBool_force env = Inl e"
  shows "containerPruneAction env w = (Some e, \<lparr>world = w, trace = [NewClient, Cancel], deleted = []\<rparr>)"
  using assms by (simp add: containerPruneAction_def init_def emit_def)

lemma prune_declined:
  assumes "newClient env = None" and "GetBool_force env = Inr False"
    and "Fscanf_s (stdin env) \<noteq> ''y''" and "Fscanf_s (stdin env) \<noteq> ''Y''"
  shows "containerPruneAction env w =
           (None, \<lparr>world = w, trace = [NewClient, Out prompt, Scan, Cancel], deleted = []\<rparr>)"
  using assms
  by (simp add: containerPruneAction_def prune_body_def confirm_gate_asked init_def emit_def)

lemma prune_namespace_failed:
  assumes "newClient env = None" and "GetBool_force env = Inr force"
    and "force \<or> Fscanf_s (stdin env) = ''y'' \<or> Fscanf_s (stdin env) = ''Y''"
    and "GetString_namespace env = Inl e"
  shows "containerPruneAction env w =
           (Some e, \<lparr>world = w,
                     trace = NewClient # (if force then [] else [Out prompt, Scan]) @ [Cancel],
                     deleted = []\<rparr>)"
  using assms
  by (cases force)
     (auto simp add: containerPruneAction_def prune_body_def confirm_gate_asked
        confirm_gate_forced init_def emit_def)

lemma prune_list_failed:
  assumes "newClient env = None" and "GetBool_force env = Inr force"
    and "force \<or> Fscanf_s (stdin env) = ''y'' \<or> Fscanf_s (stdin env) = ''Y''"
    and "GetString_namespace env = Inr ns" and "Containers env w = Inl e"
  shows "containerPruneAction env w =
           (Some e, \<lparr>world = w,
                     trace = NewClient # (if force then [] else [Out prompt, Scan])
                               @ [ListCall (Inl e), Cancel],
                     deleted = []\<rparr>)"
  using assms
  by (cases force)
     (auto simp add: containerPruneAction_def prune_body_def confirm_gate_asked
        confirm_gate_forced init_def emit_def)

lemma prune_listed:
  assumes "newClient env = None" and "GetBool_force env = Inr force"
    and "force \<or> Fscanf_s (stdin env) = ''y'' \<or> Fscanf_s (stdin env) = ''Y''"
    and "GetString_namespace env = Inr ns" and "Containers env w = Inr cs"
  shows "containerPruneAction env w =
           (None, emit Cancel (report (remove_loop env ns cs (loop_entry env force w cs))))"
  using assms
  by (cases force)
     (auto simp add: containerPruneAction_def prune_body_def confirm_gate_asked
        confirm_gate_forced init_def emit_def loop_entry_def)

lemma removals_Out: "removals (map (\<lambda>i. Out (f i)) ids) = []"
  by (induction ids) simp_all


lemma report_removals: "removals (trace (report s)) = removals (trace s)"
  by (simp add: report_trace removals_append removals_Out)


lemma loop_entry_removals: "removals (trace (loop_entry env force w cs)) = []"
  by (simp add: loop_entry_fields removals_append)


text \<open>The paths through the command, by what the collaborators answer.\<close>

lemma prune_paths:
  obtains (client_failed) e where "newClient env = Some e"
  | (force_failed) e where "newClient env = None" "GetBool_force env = Inl e"
  | (declined) "newClient env = None" "GetBool_force env = Inr False"
      "Fscanf_s (stdin env) \<noteq> ''y''" "Fscanf_s (stdin env) \<noteq> ''Y''"
  | (namespace_failed) force e where "newClient env = None" "GetBool_force env = Inr force"
      "force \<or> Fscanf_s (stdin env) = ''y'' \<or> Fscanf_s (stdin env) = ''Y''"
      "GetString_namespace env = Inl e"
  | (list_failed) force ns e where "newClient env = None" "GetBool_force env = Inr force"
      "force \<or> Fscanf_s (stdin env) = ''y'' \<or> Fscanf_s (stdin env) = ''Y''"
      "GetString_namespace env = Inr ns" "Containers env w = Inl e"
  | (listed) force ns cs where "newClient env = None" "GetBool_force env = Inr force"
      "force \<or> Fscanf_s (stdin env) = ''y'' \<or> Fscanf_s (stdin env) = ''Y''"
      "GetString_namespace env = Inr ns" "Containers env w = Inr cs"
proof (cases "newClient env")
  case (Some e)
  then show ?thesis by (rule client_failed)
next
  case None
  show ?thesis
  proof (cases "GetBool_force env")
    case (Inl e)
    with None show ?thesis by (rule force_failed)
  next
    case (Inr force)
    show ?thesis
    proof (cases "force \<or> Fscanf_s (stdin env) = ''y'' \<or> Fscanf_s (stdin env) = ''Y''")
      case False
      with None Inr show ?thesis by (intro declined) auto
    next
      case True
      show ?thesis
      proof (cases "GetString_namespace env")
        case (Inl e)
        with None Inr True show ?thesis by (intro namespace_failed)
      next
        case ns: (Inr ns)
        show ?thesis
        proof (cases "Containers env w")
          case (Inl e)
          with None Inr True ns show ?thesis by (intro list_failed)
        next
          case cs: (Inr cs)
          with None Inr True ns show ?thesis by (intro listed)
        qed
      qed
    qed
  qed
qed

text \<open>The trace of a run that reaches the loop, part by part.\<close>

lemma prune_listed_trace:
  assumes "newClient env = None" and "GetBool_force env = Inr force"
    and "force \<or> Fscanf_s (stdin env) = ''y'' \<or> Fscanf_s (stdin env) = ''Y''"
    and "GetString_namespace env = Inr ns" and "Containers env w = Inr cs"
    and "containerPruneAction env w = (r, s)"
  shows "\<exists>t. (\<forall>ev \<in> set t. is_loop_event ev) \<and>
           trace s = NewClient # (if force then [] else [Out prompt, Scan])
                     @ [ListCall (Inr cs)] @ t
                     @ (if deleted s = [] then []
                        else Out ''Deleted Containers:\<newline>''
                             # map (\<lambda>i. Out (i @ ''\<newline>'')) (deleted s))
                     @ [Cancel]"
proof -
  let ?loop = "remove_loop env ns cs (loop_entry env force w cs)"
  have s: "s = emit Cancel (report ?loop)"
    using prune_listed [OF assms(1-5)] assms(6) by simp
  obtain t where t: "trace ?loop = trace (loop_entry env force w cs) @ t"
      "\<forall>ev \<in> set t. is_loop_event ev"
    using remove_loop_events by blast
  have "deleted s = deleted ?loop"
    by (simp add: s report_deleted)
  then have "trace s = NewClient # (if force then [] else [Out prompt, Scan])
                     @ [ListCall (Inr cs)] @ t
                     @ (if deleted s = [] then []
                        else Out ''Deleted Containers:\<newline>''
                             # map (\<lambda>i. Out (i @ ''\<newline>'')) (deleted s))
                     @ [Cancel]"
    by (simp add: s report_trace t(1) loop_entry_fields)
  with t(2) show ?thesis by blast
qed

lemma demo_run_forced:
  "containerPruneAction (demo_env True '''') [] =
     (None,
      \<lparr>world = [''ccc'', ''aaa''],
       trace =
         [NewClient,
          ListCall (Inr [Container ''aaa'', Container ''bbb'', Container ''ccc'', Container ''ddd'']),
          RemoveCall (Container ''aaa'') ''default'' False True None,
          RemoveCall (Container ''bbb'') ''default'' False True (Some ''container is running''),
          RemoveCall (Container ''ccc'') ''default'' False True None,
          RemoveCall (Container ''ddd'') ''default'' False True (Some ''input/output error''),
          Warn ''input/output error'' ''failed to remove container ddd'',
          Out ''Deleted Containers:\<newline>'', Out ''aaa\<newline>'', Out ''ccc\<newline>'', Cancel],
       deleted = [''aaa'', ''ccc'']\<rparr>)"
  by code_simp

lemma demo_run_declined:
  "containerPruneAction (demo_env False ''n\<newline>'') [] =
     (None, \<lparr>world = [], trace = [NewClient, Out prompt, Scan, Cancel], deleted = []\<rparr>)"
  by code_simp

lemma demo_token_n: "Fscanf_s ''n\<newline>'' = ''n''"
  by code_simp


lemma prompt_not_a_line: "prompt \<noteq> i @ ''\<newline>''"
proof
  assume "prompt = i @ ''\<newline>''"
  then have "last prompt = last (i @ ''\<newline>'')"
    by (rule arg_cong)
  then show False
    by (simp add: prompt_def)
qed


lemma loop_events_quiet:
  assumes "\<forall>ev \<in> set t. is_loop_event ev"
  shows "Scan \<notin> set t" and "Out str \<notin> set t" and "ListCall l \<notin> set t"
  using assms by auto

lemma demo_before_bbb:
  "remove_loop (demo_env True '''') ''default'' [Container ''aaa'']
     (loop_entry (demo_env True '''') True [] demo_containers) =
   \<lparr>world = [''aaa''],
    trace = [NewClient, ListCall (Inr demo_containers),
             RemoveCall (Container ''aaa'') ''default'' False True None],
    deleted = [''aaa'']\<rparr>"
  by code_simp

lemma demo_before_ddd:
  "remove_loop (demo_env True '''') ''default'' [Container ''aaa'', Container ''bbb'', Container ''ccc'']
     (loop_entry (demo_env True '''') True [] demo_containers) =
   \<lparr>world = [''ccc'', ''aaa''],
    trace = [NewClient, ListCall (Inr demo_containers),
             RemoveCall (Container ''aaa'') ''default'' False True None,
             RemoveCall (Container ''bbb'') ''default'' False True (Some ''container is running''),
             RemoveCall (Container ''ccc'') ''default'' False True None],
    deleted = [''aaa'', ''ccc'']\<rparr>"
  by code_simp

section \<open>The claims\<close>

text \<open>
  In the statements below a run is described by what the collaborators answer. The command
  reaches the removal loop when the client was created, the force flag was read, the gate
  let the command through (the flag is set, or the scanned token is \<open>y\<close> or \<open>Y\<close>), the
  namespace flag was read and the enumeration returned a list.
\<close>

text \<open>
  C1: in every run that reaches the report, there was one removal call for each enumerated
  container, in enumeration order, and \<open>deleted\<close> holds exactly the identifiers of the
  containers whose removal call returned \<open>nil\<close>, in the order of the calls; so it is a
  subsequence of the enumerated identifiers.
\<close>

theorem deleted_is_the_successful_removals:
  assumes "newClient env = None" and "GetBool_force env = Inr force"
    and "force \<or> Fscanf_s (stdin env) = ''y'' \<or> Fscanf_s (stdin env) = ''Y''"
    and "GetString_namespace env = Inr ns" and "Containers env w = Inr cs"
    and "containerPruneAction env w = (r, s)"
  shows "map fst (removals (trace s)) = cs
       \<and> deleted s = map (ID \<circ> fst) (filter (\<lambda>p. snd p = None) (removals (trace s)))
       \<and> subseq (deleted s) (map ID cs)"
proof -
  let ?entry = "loop_entry env force w cs"
  let ?loop = "remove_loop env ns cs ?entry"
  have s: "s = emit Cancel (report ?loop)"
    using prune_listed [OF assms(1-5)] assms(6) by simp
  have removals_s: "removals (trace s) = removals (trace ?loop)"
    by (simp add: s removals_append report_removals)
  have deleted_s: "deleted s = deleted ?loop"
    by (simp add: s report_deleted)
  have "deleted ?entry = map ID (succeeded (trace ?entry))"
    by (simp add: loop_entry_fields(2) succeeded_def loop_entry_removals)
  then have "deleted ?loop = map ID (succeeded (trace ?loop))"
    by (rule remove_loop_inv)
  then have del: "deleted s = map (ID \<circ> fst) (filter (\<lambda>p. snd p = None) (removals (trace s)))"
    by (simp add: deleted_s removals_s succeeded_def)
  have calls: "map fst (removals (trace s)) = cs"
    using remove_loop_containers [of env ns cs ?entry] by (simp add: removals_s loop_entry_removals)
  have "subseq (map fst (filter (\<lambda>p. snd p = None) (removals (trace s)))) (map fst (removals (trace s)))"
    by (simp add: subseq_map)
  then have "subseq (map ID (map fst (filter (\<lambda>p. snd p = None) (removals (trace s))))) (map ID cs)"
    unfolding calls by (rule subseq_map)
  then have "subseq (deleted s) (map ID cs)"
    by (simp add: del)
  with calls del show ?thesis by simp
qed

theorem deleted_is_the_successful_removals_witness:
  "newClient (demo_env True '''') = None
   \<and> GetBool_force (demo_env True '''') = Inr True
   \<and> GetString_namespace (demo_env True '''') = Inr ''default''
   \<and> Containers (demo_env True '''') [] = Inr demo_containers
   \<and> map fst (removals (trace (snd (containerPruneAction (demo_env True '''') [])))) = demo_containers
   \<and> deleted (snd (containerPruneAction (demo_env True '''') [])) = [''aaa'', ''ccc'']
   \<and> subseq [''aaa'', ''ccc''] (map ID demo_containers)"
proof -
  let ?env = "demo_env True ''''"
  have h: "newClient ?env = None" "GetBool_force ?env = Inr True"
    "True \<or> Fscanf_s (stdin ?env) = ''y'' \<or> Fscanf_s (stdin ?env) = ''Y''"
    "GetString_namespace ?env = Inr ''default''" "Containers ?env [] = Inr demo_containers"
    by (simp_all add: demo_env_def demo_list_def)
  have run: "containerPruneAction ?env [] =
               (fst (containerPruneAction ?env []), snd (containerPruneAction ?env []))"
    by simp
  note inst = deleted_is_the_successful_removals [OF h run]
  have v: "deleted (snd (containerPruneAction ?env [])) = [''aaa'', ''ccc'']"
    by (simp add: demo_run_forced)
  have a: "map fst (removals (trace (snd (containerPruneAction ?env [])))) = demo_containers"
    using inst by (rule conjunct1)
  have "subseq (deleted (snd (containerPruneAction ?env []))) (map ID demo_containers)"
    using inst by blast
  then have c: "subseq [''aaa'', ''ccc''] (map ID demo_containers)"
    unfolding v .
  show ?thesis
    using h(1,2,4,5) a v c by (intro conjI)
qed



text \<open>
  C3: when the enumeration returns an error, the command returns that error; the enumeration
  is the last call it made on the runtime, no removal call was made, nothing was deleted
  and the runtime is as it was.
\<close>

theorem enumeration_failure_aborts:
  assumes "newClient env = None" and "GetBool_force env = Inr force"
    and "force \<or> Fscanf_s (stdin env) = ''y'' \<or> Fscanf_s (stdin env) = ''Y''"
    and "GetString_namespace env = Inr ns" and "Containers env w = Inl e"
    and "containerPruneAction env w = (r, s)"
  shows "r = Some e
       \<and> trace s = NewClient # (if force then [] else [Out prompt, Scan]) @ [ListCall (Inl e), Cancel]
       \<and> removal_args (trace s) = []
       \<and> deleted s = [] \<and> world s = w"
proof -
  have "containerPruneAction env w =
          (Some e, \<lparr>world = w,
                    trace = NewClient # (if force then [] else [Out prompt, Scan])
                              @ [ListCall (Inl e), Cancel],
                    deleted = []\<rparr>)"
    using assms(1-5) by (rule prune_list_failed)
  with assms(6) show ?thesis
    by auto
qed

theorem enumeration_failure_aborts_witness:
  "newClient (demo_env True ''''\<lparr>Containers := demo_list_broken\<rparr>) = None
   \<and> GetBool_force (demo_env True ''''\<lparr>Containers := demo_list_broken\<rparr>) = Inr True
   \<and> GetString_namespace (demo_env True ''''\<lparr>Containers := demo_list_broken\<rparr>) = Inr ''default''
   \<and> Containers (demo_env True ''''\<lparr>Containers := demo_list_broken\<rparr>) [] = Inl ''connection refused''
   \<and> fst (containerPruneAction (demo_env True ''''\<lparr>Containers := demo_list_broken\<rparr>) [])
       = Some ''connection refused''
   \<and> trace (snd (containerPruneAction (demo_env True ''''\<lparr>Containers := demo_list_broken\<rparr>) []))
       = [NewClient, ListCall (Inl ''connection refused''), Cancel]
   \<and> removal_args (trace (snd (containerPruneAction (demo_env True ''''\<lparr>Containers := demo_list_broken\<rparr>) []))) = []"
proof -
  let ?env = "demo_env True ''''\<lparr>Containers := demo_list_broken\<rparr>"
  have h: "newClient ?env = None" "GetBool_force ?env = Inr True"
    "True \<or> Fscanf_s (stdin ?env) = ''y'' \<or> Fscanf_s (stdin ?env) = ''Y''"
    "GetString_namespace ?env = Inr ''default''" "Containers ?env [] = Inl ''connection refused''"
    by (simp_all add: demo_env_def demo_list_broken_def)
  have run: "containerPruneAction ?env [] =
               (fst (containerPruneAction ?env []), snd (containerPruneAction ?env []))"
    by simp
  show ?thesis
    using h(1,2,4,5) enumeration_failure_aborts [OF h run] by simp
qed

text \<open>
  C4: take any container \<open>c\<close> of the enumeration, \<open>pre\<close> before it and \<open>post\<close> after it,
  and let \<open>before\<close> be the state the loop is in when it comes to \<open>c\<close>. When the removal of
  \<open>c\<close> fails with a status error, the loop body changes the state by the call alone: the
  trace gains the removal call and no warning, \<open>deleted\<close> is as before. The loop then
  goes through all of \<open>post\<close>, the report is made, and every enumerated container has had
  its removal call.
\<close>

theorem status_error_is_skipped:
  assumes "newClient env = None" and "GetBool_force env = Inr force"
    and "force \<or> Fscanf_s (stdin env) = ''y'' \<or> Fscanf_s (stdin env) = ''Y''"
    and "GetString_namespace env = Inr ns" and "Containers env w = Inr (pre @ c # post)"
    and "before = remove_loop env ns pre (loop_entry env force w (pre @ c # post))"
    and "removeContainer env (world before) c ns False True = (Some e, w')"
    and "is_statusError env e"
  shows "remove_step env ns before c =
           before\<lparr>world := w', trace := trace before @ [RemoveCall c ns False True (Some e)]\<rparr>
       \<and> containerPruneAction env w =
           (None, emit Cancel (report (remove_loop env ns post (remove_step env ns before c))))
       \<and> map fst (removals (trace (snd (containerPruneAction env w)))) = pre @ c # post"
proof -
  let ?entry = "loop_entry env force w (pre @ c # post)"
  have run: "containerPruneAction env w =
      (None, emit Cancel (report (remove_loop env ns (pre @ c # post) ?entry)))"
    using assms(1-5) by (rule prune_listed)
  have loop: "remove_loop env ns (pre @ c # post) ?entry
          = remove_loop env ns post (remove_step env ns before c)"
    by (simp add: remove_loop_append assms(6))
  have step: "remove_step env ns before c =
      before\<lparr>world := w', trace := trace before @ [RemoveCall c ns False True (Some e)]\<rparr>"
    using assms(7,8) by (rule remove_step_status)
  have "map fst (removals (trace (snd (containerPruneAction env w)))) = pre @ c # post"
    using remove_loop_containers [of env ns "pre @ c # post" ?entry]
    by (simp add: run removals_append report_removals loop_entry_removals)
  with run loop step show ?thesis
    by simp
qed

theorem status_error_is_skipped_witness:
  "newClient (demo_env True '''') = None
   \<and> GetBool_force (demo_env True '''') = Inr True
   \<and> GetString_namespace (demo_env True '''') = Inr ''default''
   \<and> Containers (demo_env True '''') [] =
        Inr ([Container ''aaa''] @ Container ''bbb'' # [Container ''ccc'', Container ''ddd''])
   \<and> removeContainer (demo_env True '''') [''aaa''] (Container ''bbb'') ''default'' False True =
        (Some ''container is running'', [''aaa''])
   \<and> is_statusError (demo_env True '''') ''container is running''
   \<and> remove_step (demo_env True '''') ''default''
        \<lparr>world = [''aaa''],
         trace = [NewClient, ListCall (Inr demo_containers),
                  RemoveCall (Container ''aaa'') ''default'' False True None],
         deleted = [''aaa'']\<rparr>
        (Container ''bbb'') =
      \<lparr>world = [''aaa''],
       trace = [NewClient, ListCall (Inr demo_containers),
                RemoveCall (Container ''aaa'') ''default'' False True None,
                RemoveCall (Container ''bbb'') ''default'' False True (Some ''container is running'')],
       deleted = [''aaa'']\<rparr>
   \<and> map fst (removals (trace (snd (containerPruneAction (demo_env True '''') [])))) =
        [Container ''aaa'', Container ''bbb'', Container ''ccc'', Container ''ddd'']"
proof -
  let ?env = "demo_env True ''''"
  let ?before = "remove_loop ?env ''default'' [Container ''aaa'']
     (loop_entry ?env True [] ([Container ''aaa''] @ Container ''bbb'' # [Container ''ccc'', Container ''ddd'']))"
  have before: "?before =
     \<lparr>world = [''aaa''],
      trace = [NewClient, ListCall (Inr demo_containers),
               RemoveCall (Container ''aaa'') ''default'' False True None],
      deleted = [''aaa'']\<rparr>"
    using demo_before_bbb by (simp add: demo_containers_def)
  have h: "newClient ?env = None" "GetBool_force ?env = Inr True"
    "True \<or> Fscanf_s (stdin ?env) = ''y'' \<or> Fscanf_s (stdin ?env) = ''Y''"
    "GetString_namespace ?env = Inr ''default''"
    "Containers ?env [] =
       Inr ([Container ''aaa''] @ Container ''bbb'' # [Container ''ccc'', Container ''ddd''])"
    by (simp_all add: demo_env_def demo_list_def demo_containers_def)
  have call: "removeContainer ?env [''aaa''] (Container ''bbb'') ''default'' False True =
        (Some ''container is running'', [''aaa''])"
    by (simp add: demo_env_def demo_remove_def)
  then have call': "removeContainer ?env (world ?before) (Container ''bbb'') ''default'' False True =
        (Some ''container is running'', [''aaa''])"
    by (simp only: before state.simps)
  have status: "is_statusError ?env ''container is running''"
    by (simp add: demo_env_def demo_is_status_def)
  note inst = status_error_is_skipped [OF h refl call' status]
  have a: "remove_step ?env ''default'' ?before (Container ''bbb'') =
      ?before\<lparr>world := [''aaa''],
              trace := trace ?before @
                [RemoveCall (Container ''bbb'') ''default'' False True (Some ''container is running'')]\<rparr>"
    using inst by (rule conjunct1)
  have b: "map fst (removals (trace (snd (containerPruneAction ?env [])))) =
        [Container ''aaa''] @ Container ''bbb'' # [Container ''ccc'', Container ''ddd'']"
    using inst by blast
  show ?thesis
    using h(1,2,4,5) call status a b unfolding before by simp
qed

text \<open>
  C5: a run that reaches the loop returns \<open>nil\<close> and makes a removal call for every
  enumerated container, whatever the calls return. When the removal of a container \<open>c\<close>
  fails with an error that is not a status error, the loop body adds to the trace the call
  and a warning that carries the error and the message with the identifier of \<open>c\<close>;
  \<open>deleted\<close> is as before, and the loop goes on with the containers after \<open>c\<close>.
\<close>

theorem other_error_is_warned:
  assumes "newClient env = None" and "GetBool_force env = Inr force"
    and "force \<or> Fscanf_s (stdin env) = ''y'' \<or> Fscanf_s (stdin env) = ''Y''"
    and "GetString_namespace env = Inr ns" and "Containers env w = Inr cs"
    and "containerPruneAction env w = (r, s)"
    and "before = remove_loop env ns pre (loop_entry env force w cs)"
  shows "r = None
       \<and> map fst (removals (trace s)) = cs
       \<and> (cs = pre @ c # post
           \<and> removeContainer env (world before) c ns False True = (Some e, w')
           \<and> \<not> is_statusError env e \<longrightarrow>
            remove_step env ns before c =
              before\<lparr>world := w',
                      trace := trace before @
                        [RemoveCall c ns False True (Some e),
                         Warn e (''failed to remove container '' @ ID c)]\<rparr>
            \<and> s = emit Cancel (report (remove_loop env ns post (remove_step env ns before c))))"
proof -
  let ?entry = "loop_entry env force w cs"
  have run: "containerPruneAction env w = (None, emit Cancel (report (remove_loop env ns cs ?entry)))"
    using assms(1-5) by (rule prune_listed)
  then have r: "r = None" and s: "s = emit Cancel (report (remove_loop env ns cs ?entry))"
    using assms(6) by simp_all
  have calls: "map fst (removals (trace s)) = cs"
    using remove_loop_containers [of env ns cs ?entry]
    by (simp add: s removals_append report_removals loop_entry_removals)
  have "remove_step env ns before c =
              before\<lparr>world := w',
                      trace := trace before @
                        [RemoveCall c ns False True (Some e),
                         Warn e (''failed to remove container '' @ ID c)]\<rparr>
        \<and> s = emit Cancel (report (remove_loop env ns post (remove_step env ns before c)))"
    if split: "cs = pre @ c # post"
      and call: "removeContainer env (world before) c ns False True = (Some e, w')"
      and other: "\<not> is_statusError env e"
  proof -
    have "remove_loop env ns cs ?entry = remove_loop env ns post (remove_step env ns before c)"
      by (simp add: split remove_loop_append assms(7))
    moreover have "remove_step env ns before c =
        before\<lparr>world := w', trace := trace before @
                  [RemoveCall c ns False True (Some e), Warn e (warn_msg c)]\<rparr>"
      using call other by (rule remove_step_other)
    ultimately show ?thesis
      by (simp add: s warn_msg_def)
  qed
  with r calls show ?thesis
    by blast
qed

theorem other_error_is_warned_witness:
  "newClient (demo_env True '''') = None
   \<and> GetBool_force (demo_env True '''') = Inr True
   \<and> GetString_namespace (demo_env True '''') = Inr ''default''
   \<and> Containers (demo_env True '''') [] = Inr demo_containers
   \<and> demo_containers = [Container ''aaa'', Container ''bbb'', Container ''ccc''] @ Container ''ddd'' # []
   \<and> removeContainer (demo_env True '''') [''ccc'', ''aaa''] (Container ''ddd'') ''default'' False True =
        (Some ''input/output error'', [''ccc'', ''aaa''])
   \<and> \<not> is_statusError (demo_env True '''') ''input/output error''
   \<and> fst (containerPruneAction (demo_env True '''') []) = None
   \<and> remove_step (demo_env True '''') ''default''
        \<lparr>world = [''ccc'', ''aaa''],
         trace = [NewClient, ListCall (Inr demo_containers),
                  RemoveCall (Container ''aaa'') ''default'' False True None,
                  RemoveCall (Container ''bbb'') ''default'' False True (Some ''container is running''),
                  RemoveCall (Container ''ccc'') ''default'' False True None],
         deleted = [''aaa'', ''ccc'']\<rparr>
        (Container ''ddd'') =
      \<lparr>world = [''ccc'', ''aaa''],
       trace = [NewClient, ListCall (Inr demo_containers),
                RemoveCall (Container ''aaa'') ''default'' False True None,
                RemoveCall (Container ''bbb'') ''default'' False True (Some ''container is running''),
                RemoveCall (Container ''ccc'') ''default'' False True None,
                RemoveCall (Container ''ddd'') ''default'' False True (Some ''input/output error''),
                Warn ''input/output error'' ''failed to remove container ddd''],
       deleted = [''aaa'', ''ccc'']\<rparr>"
proof -
  let ?env = "demo_env True ''''"
  let ?pre = "[Container ''aaa'', Container ''bbb'', Container ''ccc'']"
  let ?before = "remove_loop ?env ''default'' ?pre (loop_entry ?env True [] demo_containers)"
  have before: "?before =
     \<lparr>world = [''ccc'', ''aaa''],
      trace = [NewClient, ListCall (Inr demo_containers),
               RemoveCall (Container ''aaa'') ''default'' False True None,
               RemoveCall (Container ''bbb'') ''default'' False True (Some ''container is running''),
               RemoveCall (Container ''ccc'') ''default'' False True None],
      deleted = [''aaa'', ''ccc'']\<rparr>"
    by (rule demo_before_ddd)
  have h: "newClient ?env = None" "GetBool_force ?env = Inr True"
    "True \<or> Fscanf_s (stdin ?env) = ''y'' \<or> Fscanf_s (stdin ?env) = ''Y''"
    "GetString_namespace ?env = Inr ''default''"
    "Containers ?env [] = Inr demo_containers"
    by (simp_all add: demo_env_def demo_list_def)
  have run: "containerPruneAction ?env [] =
               (fst (containerPruneAction ?env []), snd (containerPruneAction ?env []))"
    by simp
  have split: "demo_containers = ?pre @ Container ''ddd'' # []"
    by (simp add: demo_containers_def)
  have call: "removeContainer ?env [''ccc'', ''aaa''] (Container ''ddd'') ''default'' False True =
        (Some ''input/output error'', [''ccc'', ''aaa''])"
    by (simp add: demo_env_def demo_remove_def)
  then have call': "removeContainer ?env (world ?before) (Container ''ddd'') ''default'' False True =
        (Some ''input/output error'', [''ccc'', ''aaa''])"
    by (simp only: before state.simps)
  have other: "\<not> is_statusError ?env ''input/output error''"
    by (simp add: demo_env_def demo_is_status_def)
  note inst = other_error_is_warned [OF h run refl,
      where pre = ?pre and c = "Container ''ddd''" and post = "[]"
        and e = "''input/output error''" and w' = "[''ccc'', ''aaa'']"]
  have a: "fst (containerPruneAction ?env []) = None"
    using inst by (rule conjunct1)
  have b: "remove_step ?env ''default'' ?before (Container ''ddd'') =
      ?before\<lparr>world := [''ccc'', ''aaa''],
              trace := trace ?before @
                [RemoveCall (Container ''ddd'') ''default'' False True (Some ''input/output error''),
                 Warn ''input/output error'' (''failed to remove container '' @ ID (Container ''ddd''))]\<rparr>"
    using inst split call' other by blast
  show ?thesis
    using h(1,2,4,5) split call other a b unfolding before by simp
qed

text \<open>
  C6: the report adds to the trace the header line and then one line for each identifier of
  \<open>deleted\<close>, in order, when \<open>deleted\<close> is not empty, and nothing when it is empty; an
  empty enumeration leaves \<open>deleted\<close> empty and nothing is written after the enumeration.
  (\<open>looped\<close> is the state the loop leaves, the trace ends with the deferred cancel.)
\<close>

theorem report_lists_deleted:
  assumes "newClient env = None" and "GetBool_force env = Inr force"
    and "force \<or> Fscanf_s (stdin env) = ''y'' \<or> Fscanf_s (stdin env) = ''Y''"
    and "GetString_namespace env = Inr ns" and "Containers env w = Inr cs"
    and "containerPruneAction env w = (r, s)"
    and "looped = remove_loop env ns cs (loop_entry env force w cs)"
  shows "deleted s = deleted looped
       \<and> trace s = trace looped
           @ (if deleted looped = [] then []
              else Out ''Deleted Containers:\<newline>''
                   # map (\<lambda>i. Out (i @ ''\<newline>'')) (deleted looped))
           @ [Cancel]
       \<and> (cs = [] \<longrightarrow>
            deleted s = []
            \<and> trace s = NewClient # (if force then [] else [Out prompt, Scan])
                          @ [ListCall (Inr []), Cancel])"
proof -
  have s: "s = emit Cancel (report looped)"
    using prune_listed [OF assms(1-5)] assms(6,7) by simp
  have d: "deleted s = deleted looped"
    by (simp add: s report_deleted)
  have t: "trace s = trace looped
           @ (if deleted looped = [] then []
              else Out ''Deleted Containers:\<newline>''
                   # map (\<lambda>i. Out (i @ ''\<newline>'')) (deleted looped))
           @ [Cancel]"
    by (simp add: s report_trace)
  have "deleted s = [] \<and> trace s = NewClient # (if force then [] else [Out prompt, Scan])
                          @ [ListCall (Inr []), Cancel]" if "cs = []"
    using that d t by (simp add: assms(7) loop_entry_fields)
  with d t show ?thesis
    by blast
qed

theorem report_lists_deleted_witness:
  "newClient (demo_env True '''') = None
   \<and> GetBool_force (demo_env True '''') = Inr True
   \<and> GetString_namespace (demo_env True '''') = Inr ''default''
   \<and> Containers (demo_env True '''') [] = Inr demo_containers
   \<and> deleted (remove_loop (demo_env True '''') ''default'' demo_containers
               (loop_entry (demo_env True '''') True [] demo_containers)) = [''aaa'', ''ccc'']
   \<and> trace (snd (containerPruneAction (demo_env True '''') [])) =
       trace (remove_loop (demo_env True '''') ''default'' demo_containers
               (loop_entry (demo_env True '''') True [] demo_containers))
       @ [Out ''Deleted Containers:\<newline>'', Out ''aaa\<newline>'', Out ''ccc\<newline>'', Cancel]
   \<and> Containers (demo_env True '''') [''aaa'', ''bbb'', ''ccc'', ''ddd''] = Inr []
   \<and> trace (snd (containerPruneAction (demo_env True '''') [''aaa'', ''bbb'', ''ccc'', ''ddd'']))
       = [NewClient, ListCall (Inr []), Cancel]"
proof -
  let ?env = "demo_env True ''''"
  let ?looped = "remove_loop ?env ''default'' demo_containers (loop_entry ?env True [] demo_containers)"
  have h: "newClient ?env = None" "GetBool_force ?env = Inr True"
    "True \<or> Fscanf_s (stdin ?env) = ''y'' \<or> Fscanf_s (stdin ?env) = ''Y''"
    "GetString_namespace ?env = Inr ''default''" "Containers ?env [] = Inr demo_containers"
    by (simp_all add: demo_env_def demo_list_def)
  have run: "containerPruneAction ?env w =
               (fst (containerPruneAction ?env w), snd (containerPruneAction ?env w))" for w
    by simp
  have v: "deleted ?looped = [''aaa'', ''ccc'']"
    by code_simp
  have "trace (snd (containerPruneAction ?env [])) = trace ?looped
           @ (if deleted ?looped = [] then []
              else Out ''Deleted Containers:\<newline>''
                   # map (\<lambda>i. Out (i @ ''\<newline>'')) (deleted ?looped))
           @ [Cancel]"
    using report_lists_deleted [OF h run refl] by blast
  then have "trace (snd (containerPruneAction ?env [])) = trace ?looped
       @ [Out ''Deleted Containers:\<newline>'', Out ''aaa\<newline>'', Out ''ccc\<newline>'', Cancel]"
    unfolding v by simp
  moreover have gone: "Containers ?env [''aaa'', ''bbb'', ''ccc'', ''ddd''] = Inr []"
    by (simp add: demo_env_def demo_list_def demo_containers_def)
  moreover have "trace (snd (containerPruneAction ?env [''aaa'', ''bbb'', ''ccc'', ''ddd'']))
       = [NewClient, ListCall (Inr []), Cancel]"
  proof -
    have "trace (snd (containerPruneAction ?env [''aaa'', ''bbb'', ''ccc'', ''ddd'']))
       = NewClient # (if True then [] else [Out prompt, Scan]) @ [ListCall (Inr []), Cancel]"
      using report_lists_deleted [OF h(1-4) gone run refl] by blast
    then show ?thesis
      by simp
  qed
  ultimately show ?thesis
    using h(1,2,4,5) v by (intro conjI)
qed




text \<open>
  C8: with the force flag read as false and the scanned token \<open>n\<close>, the command writes the
  prompt, scans, and returns \<open>nil\<close>: no call on the runtime client (neither enumeration
  nor removal), no report line, nothing deleted.
\<close>

theorem declined_with_n:
  assumes "newClient env = None" and "GetBool_force env = Inr False"
    and "Fscanf_s (stdin env) = ''n''"
    and "containerPruneAction env w = (r, s)"
  shows "r = None
       \<and> trace s = [NewClient, Out prompt, Scan, Cancel]
       \<and> filter is_client_call (trace s) = []
       \<and> deleted s = [] \<and> world s = w"
proof -
  have "Fscanf_s (stdin env) \<noteq> ''y''" and "Fscanf_s (stdin env) \<noteq> ''Y''"
    using assms(3) by simp_all
  with assms(1,2) have "containerPruneAction env w =
      (None, \<lparr>world = w, trace = [NewClient, Out prompt, Scan, Cancel], deleted = []\<rparr>)"
    by (rule prune_declined)
  with assms(4) show ?thesis
    by auto
qed

theorem declined_with_n_witness:
  "newClient (demo_env False ''n\<newline>'') = None
   \<and> GetBool_force (demo_env False ''n\<newline>'') = Inr False
   \<and> Fscanf_s (stdin (demo_env False ''n\<newline>'')) = ''n''
   \<and> fst (containerPruneAction (demo_env False ''n\<newline>'') []) = None
   \<and> trace (snd (containerPruneAction (demo_env False ''n\<newline>'') []))
       = [NewClient, Out prompt, Scan, Cancel]
   \<and> filter is_client_call (trace (snd (containerPruneAction (demo_env False ''n\<newline>'') []))) = []
   \<and> deleted (snd (containerPruneAction (demo_env False ''n\<newline>'') [])) = []"
proof -
  let ?env = "demo_env False ''n\<newline>''"
  have h: "newClient ?env = None" "GetBool_force ?env = Inr False" "Fscanf_s (stdin ?env) = ''n''"
    by (simp_all add: demo_env_def demo_token_n)
  have run: "containerPruneAction ?env [] =
               (fst (containerPruneAction ?env []), snd (containerPruneAction ?env []))"
    by simp
  show ?thesis
    using h declined_with_n [OF h run] by blast
qed



text \<open>
  C10: the client is created first, and the force flag is read before the gate. When the
  creation of the client fails, the command returns that error and has done nothing else;
  when the force flag cannot be read, it returns that error and has only cancelled the
  context: in both runs no prompt, no scan, no call on the runtime. In any run in which
  the prompt was written or the input scanned, the client had been created and the force
  flag had been read as false, and the trace starts with the creation of the client, the
  prompt and the scan.
\<close>

theorem client_and_force_flag_come_first:
  assumes "containerPruneAction env w = (r, s)"
  shows "(newClient env = Some e \<longrightarrow>
            r = Some e \<and> s = \<lparr>world = w, trace = [NewClient], deleted = []\<rparr>)
       \<and> (newClient env = None \<and> GetBool_force env = Inl e \<longrightarrow>
            r = Some e \<and> s = \<lparr>world = w, trace = [NewClient, Cancel], deleted = []\<rparr>)
       \<and> (Out prompt \<in> set (trace s) \<or> Scan \<in> set (trace s) \<longrightarrow>
            newClient env = None \<and> GetBool_force env = Inr False
            \<and> take 3 (trace s) = [NewClient, Out prompt, Scan])"
proof (cases rule: prune_paths [where env = env and w = w])
  case (client_failed e')
  then show ?thesis
    using prune_client_failed [OF client_failed, of w] assms by auto
next
  case (force_failed e')
  then show ?thesis
    using prune_force_failed [OF force_failed, of w] assms by auto
next
  case declined
  then show ?thesis
    using prune_declined [OF declined, of w] assms by auto
next
  case (namespace_failed force e')
  then show ?thesis
    using prune_namespace_failed [OF namespace_failed, of w] assms by (cases force) auto
next
  case (list_failed force ns e')
  then show ?thesis
    using prune_list_failed [OF list_failed] assms by (cases force) auto
next
  case (listed force ns cs)
  obtain t where t: "\<forall>ev \<in> set t. is_loop_event ev"
    and tr: "trace s = NewClient # (if force then [] else [Out prompt, Scan])
                   @ [ListCall (Inr cs)] @ t
                   @ (if deleted s = [] then []
                      else Out ''Deleted Containers:\<newline>''
                           # map (\<lambda>i. Out (i @ ''\<newline>'')) (deleted s))
                   @ [Cancel]"
    using prune_listed_trace [OF listed assms] by blast
  have quiet: "Scan \<notin> set t" "Out prompt \<notin> set t"
    using t by (rule loop_events_quiet)+
  have header: "prompt \<noteq> ''Deleted Containers:\<newline>''"
    using prompt_not_a_line [of "''Deleted Containers:''"] by simp
  have "take 3 (trace s) = [NewClient, Out prompt, Scan]" if "\<not> force"
    using that by (simp add: tr)
  moreover have "Out prompt \<notin> set (trace s) \<and> Scan \<notin> set (trace s)" if "force"
    using that quiet header prompt_not_a_line by (auto simp add: tr)
  ultimately show ?thesis
    using listed(1,2) by auto
qed

theorem client_and_force_flag_come_first_witness:
  "containerPruneAction (demo_env False ''y\<newline>''\<lparr>newClient := Some ''cannot connect''\<rparr>) []
     = (Some ''cannot connect'', \<lparr>world = [], trace = [NewClient], deleted = []\<rparr>)
   \<and> containerPruneAction (demo_env False ''y\<newline>''\<lparr>GetBool_force := Inl ''no such flag''\<rparr>) []
     = (Some ''no such flag'', \<lparr>world = [], trace = [NewClient, Cancel], deleted = []\<rparr>)
   \<and> Scan \<in> set (trace (snd (containerPruneAction (demo_env False ''n\<newline>'') [])))
   \<and> newClient (demo_env False ''n\<newline>'') = None
   \<and> GetBool_force (demo_env False ''n\<newline>'') = Inr False
   \<and> take 3 (trace (snd (containerPruneAction (demo_env False ''n\<newline>'') [])))
       = [NewClient, Out prompt, Scan]"
proof -
  let ?e1 = "demo_env False ''y\<newline>''\<lparr>newClient := Some ''cannot connect''\<rparr>"
  let ?e2 = "demo_env False ''y\<newline>''\<lparr>GetBool_force := Inl ''no such flag''\<rparr>"
  let ?e3 = "demo_env False ''n\<newline>''"
  have run: "containerPruneAction env w =
               (fst (containerPruneAction env w), snd (containerPruneAction env w))"
    for env :: "(string list, string) env" and w
    by simp
  have h1: "newClient ?e1 = Some ''cannot connect''"
    and h2: "newClient ?e2 = None \<and> GetBool_force ?e2 = Inl ''no such flag''"
    and h3: "newClient ?e3 = None" "GetBool_force ?e3 = Inr False"
    by (simp_all add: demo_env_def)
  have a: "containerPruneAction ?e1 [] =
      (Some ''cannot connect'', \<lparr>world = [], trace = [NewClient], deleted = []\<rparr>)"
    using client_and_force_flag_come_first [OF run, of ?e1 "''cannot connect''" "[]"] h1
    by (simp add: prod_eq_iff)
  have b: "containerPruneAction ?e2 [] =
      (Some ''no such flag'', \<lparr>world = [], trace = [NewClient, Cancel], deleted = []\<rparr>)"
    using client_and_force_flag_come_first [OF run, of ?e2 "''no such flag''" "[]"] h2
    by (simp add: prod_eq_iff)
  have scan: "Scan \<in> set (trace (snd (containerPruneAction ?e3 [])))"
    by (simp add: demo_run_declined)
  then have c: "take 3 (trace (snd (containerPruneAction ?e3 []))) = [NewClient, Out prompt, Scan]"
    using client_and_force_flag_come_first [OF run, of ?e3 "''unused''" "[]"] by blast
  show ?thesis
    using a b scan h3 c by (intro conjI)
qed

end
